theory Spec2Isabelle
  imports Complex_Main "HOL-Library.Word"
begin

unbundle bit_operations_syntax

section \<open>Data model\<close>

text \<open>
  A Node.js \<open>Buffer\<close> is a list of bytes.  JavaScript strings that enter the
  library from outside (the secret and the license key) are modelled as lists of
  8-bit characters, i.e. strings whose code units lie in the Latin-1 range; the
  text obtained by decoding a buffer as UTF-8 is a list of Unicode code points.
\<close>

type_synonym byte = "8 word"
type_synonym buffer = "byte list"
type_synonym u32 = "32 word"
type_synonym codepoints = "nat list"

text \<open>
  A \<open>Date\<close> holds a time value in milliseconds since the epoch, or \<open>NaN\<close>
  (an invalid date), which is \<open>None\<close> here.  \<open>new Date(v)\<close> clips: a value
  whose magnitude exceeds 8.64e15 gives the invalid date.
\<close>

type_synonym date = "int option"

definition MAX_TIME :: int where
  "MAX_TIME = 8640000000000000"

definition newDate :: "int \<Rightarrow> date" where
  "newDate v = (if \<bar>v\<bar> \<le> MAX_TIME then Some v else None)"

text \<open>error.ts: the error kinds, and everything a call can throw.\<close>

datatype LicenseErrorType =
    INVALID_FORMAT
  | INVALID_SIGNATURE
  | EXPIRED
  | INVALID_DATA
  | BASE64_ERROR
  | TIME_ERROR

datatype thrown =
    LicenseError LicenseErrorType
  | Error string
  | RangeError

record LicenseInfo =
  isValid :: bool
  issuedAt :: date
  expiresAt :: date
  hoursRemaining :: rat

record LicenseGenerator =
  secretKey :: string

record LicenseValidator =
  secretKey :: string

definition LICENSE_PREFIX :: string where
  "LICENSE_PREFIX = ''alvan-''"

section \<open>Strings and buffers of the runtime\<close>

definition byte_of_char :: "char \<Rightarrow> byte" where
  "byte_of_char c = of_nat (of_char c)"

definition char_of_byte :: "byte \<Rightarrow> char" where
  "char_of_byte b = char_of (unat b)"

text \<open>\<open>String.prototype.trim\<close> on a Latin-1 string: white space and line terminators.\<close>

definition isWhiteSpaceChar :: "char \<Rightarrow> bool" where
  "isWhiteSpaceChar c = ((of_char c :: nat) \<in> {9, 10, 11, 12, 13, 32, 160})"

definition trim :: "string \<Rightarrow> string" where
  "trim s = rev (dropWhile isWhiteSpaceChar (rev (dropWhile isWhiteSpaceChar s)))"

text \<open>\<open>Buffer.from(s, 'utf8')\<close> for a string of Latin-1 code units.\<close>

definition utf8_char :: "char \<Rightarrow> buffer" where
  "utf8_char c =
     (if (of_char c :: nat) < 128 then [byte_of_char c]
      else [of_nat (192 + of_char c div 64), of_nat (128 + of_char c mod 64)])"

definition utf8_encode :: "string \<Rightarrow> buffer" where
  "utf8_encode s = concat (map utf8_char s)"

text \<open>
  \<open>buf.toString('utf8')\<close>: the decoder replaces every maximal ill-formed
  subsequence by U+FFFD and resumes at the offending byte.
\<close>

definition is_cont :: "nat \<Rightarrow> nat \<Rightarrow> byte \<Rightarrow> bool" where
  "is_cont lo hi b = (lo \<le> unat b \<and> unat b \<le> hi)"

definition cont_bits :: "byte \<Rightarrow> nat" where
  "cont_bits b = unat b mod 64"

fun utf8_decode :: "buffer \<Rightarrow> codepoints" where
  "utf8_decode [] = []"
| "utf8_decode (b # bs) =
     (if unat b < 128 then unat b # utf8_decode bs
      else if 194 \<le> unat b \<and> unat b \<le> 223 then
        (case bs of
           [] \<Rightarrow> [65533]
         | c # cs \<Rightarrow>
             if is_cont 128 191 c
             then ((unat b mod 32) * 64 + cont_bits c) # utf8_decode cs
             else 65533 # utf8_decode bs)
      else if 224 \<le> unat b \<and> unat b \<le> 239 then
        (case bs of
           [] \<Rightarrow> [65533]
         | c # cs \<Rightarrow>
             if is_cont (if unat b = 224 then 160 else 128) (if unat b = 237 then 159 else 191) c
             then (case cs of
                     [] \<Rightarrow> [65533]
                   | d # ds \<Rightarrow>
                       if is_cont 128 191 d
                       then (((unat b mod 16) * 64 + cont_bits c) * 64 + cont_bits d) # utf8_decode ds
                       else 65533 # utf8_decode cs)
             else 65533 # utf8_decode bs)
      else if 240 \<le> unat b \<and> unat b \<le> 244 then
        (case bs of
           [] \<Rightarrow> [65533]
         | c # cs \<Rightarrow>
             if is_cont (if unat b = 240 then 144 else 128) (if unat b = 244 then 143 else 191) c
             then (case cs of
                     [] \<Rightarrow> [65533]
                   | d # ds \<Rightarrow>
                       if is_cont 128 191 d
                       then (case ds of
                               [] \<Rightarrow> [65533]
                             | e # es \<Rightarrow>
                                 if is_cont 128 191 e
                                 then ((((unat b mod 8) * 64 + cont_bits c) * 64 + cont_bits d) * 64
                                        + cont_bits e) # utf8_decode es
                                 else 65533 # utf8_decode ds)
                       else 65533 # utf8_decode cs)
             else 65533 # utf8_decode bs)
      else 65533 # utf8_decode bs)"

subsection \<open>Base64 as Node.js encodes and decodes it\<close>

definition b64_alphabet :: string where
  "b64_alphabet = ''ABCDEFGHIJKLMNOPQRSTUVWXYZabcdefghijklmnopqrstuvwxyz0123456789+/''"

definition b64_char :: "nat \<Rightarrow> char" where
  "b64_char v = b64_alphabet ! v"

text \<open>\<open>buf.toString('base64')\<close>: the standard alphabet, padded with \<open>=\<close>.\<close>

fun base64_encode :: "buffer \<Rightarrow> string" where
  "base64_encode [] = []"
| "base64_encode [a] =
     [b64_char (unat a div 4), b64_char ((unat a mod 4) * 16), CHR ''='', CHR ''='']"
| "base64_encode [a, b] =
     [b64_char (unat a div 4), b64_char ((unat a mod 4) * 16 + unat b div 16),
      b64_char ((unat b mod 16) * 4), CHR ''='']"
| "base64_encode (a # b # c # rest) =
     [b64_char (unat a div 4), b64_char ((unat a mod 4) * 16 + unat b div 16),
      b64_char ((unat b mod 16) * 4 + unat c div 64), b64_char (unat c mod 64)]
     @ base64_encode rest"

text \<open>
  The decoding table of \<open>Buffer.from(s, 'base64')\<close>: it accepts the standard
  and the URL-safe alphabet.
\<close>

definition unbase64 :: "char \<Rightarrow> nat option" where
  "unbase64 c =
     (let n = (of_char c :: nat) in
      if 65 \<le> n \<and> n \<le> 90 then Some (n - 65)
      else if 97 \<le> n \<and> n \<le> 122 then Some (n - 71)
      else if 48 \<le> n \<and> n \<le> 57 then Some (n + 4)
      else if c = CHR ''+'' \<or> c = CHR ''-'' then Some 62
      else if c = CHR ''/'' \<or> c = CHR ''_'' then Some 63
      else None)"

text \<open>
  The decoder never throws: it skips every character outside the table and
  stops at the first \<open>=\<close>.
\<close>

fun b64_sextets :: "string \<Rightarrow> nat list" where
  "b64_sextets [] = []"
| "b64_sextets (c # cs) =
     (if c = CHR ''='' then []
      else (case unbase64 c of
              None \<Rightarrow> b64_sextets cs
            | Some v \<Rightarrow> v # b64_sextets cs))"

text \<open>A byte is written as soon as its bits are complete; leftover bits are dropped.\<close>

fun b64_bytes :: "nat list \<Rightarrow> buffer" where
  "b64_bytes (s0 # s1 # s2 # s3 # rest) =
     [of_nat (s0 * 4 + s1 div 16), of_nat ((s1 mod 16) * 16 + s2 div 4),
      of_nat ((s2 mod 4) * 64 + s3)] @ b64_bytes rest"
| "b64_bytes [s0, s1, s2] =
     [of_nat (s0 * 4 + s1 div 16), of_nat ((s1 mod 16) * 16 + s2 div 4)]"
| "b64_bytes [s0, s1] = [of_nat (s0 * 4 + s1 div 16)]"
| "b64_bytes _ = []"

definition base64_decode :: "string \<Rightarrow> buffer" where
  "base64_decode s = b64_bytes (b64_sextets s)"


subsection \<open>HMAC-SHA256 of the \<open>crypto\<close> module\<close>

text \<open>
  SHA-256 as in FIPS 180-4, HMAC as in RFC 2104 with a block size of 64 bytes.
  The round constants are the first 32 bits of the fractional parts of the cube roots
  of the first 64 primes, the initial state those of the square roots of the first 8.
\<close>

type_synonym sha_state = "u32 \<times> u32 \<times> u32 \<times> u32 \<times> u32 \<times> u32 \<times> u32 \<times> u32"

definition rotr :: "nat \<Rightarrow> u32 \<Rightarrow> u32" where
  "rotr n x = drop_bit n x OR push_bit (32 - n) x"

definition K256 :: "u32 list" where
  "K256 =
    [1116352408, 1899447441, 3049323471, 3921009573, 961987163, 1508970993,
     2453635748, 2870763221, 3624381080, 310598401, 607225278, 1426881987,
     1925078388, 2162078206, 2614888103, 3248222580, 3835390401, 4022224774,
     264347078, 604807628, 770255983, 1249150122, 1555081692, 1996064986,
     2554220882, 2821834349, 2952996808, 3210313671, 3336571891, 3584528711,
     113926993, 338241895, 666307205, 773529912, 1294757372, 1396182291,
     1695183700, 1986661051, 2177026350, 2456956037, 2730485921, 2820302411,
     3259730800, 3345764771, 3516065817, 3600352804, 4094571909, 275423344,
     430227734, 506948616, 659060556, 883997877, 958139571, 1322822218,
     1537002063, 1747873779, 1955562222, 2024104815, 2227730452, 2361852424,
     2428436474, 2756734187, 3204031479, 3329325298]"

definition H256 :: sha_state where
  "H256 = (1779033703, 3144134277, 1013904242, 2773480762,
           1359893119, 2600822924, 528734635, 1541459225)"

definition ssig0 :: "u32 \<Rightarrow> u32" where
  "ssig0 x = rotr 7 x XOR rotr 18 x XOR drop_bit 3 x"

definition ssig1 :: "u32 \<Rightarrow> u32" where
  "ssig1 x = rotr 17 x XOR rotr 19 x XOR drop_bit 10 x"

definition bsig0 :: "u32 \<Rightarrow> u32" where
  "bsig0 x = rotr 2 x XOR rotr 13 x XOR rotr 22 x"

definition bsig1 :: "u32 \<Rightarrow> u32" where
  "bsig1 x = rotr 6 x XOR rotr 11 x XOR rotr 25 x"

definition ch :: "u32 \<Rightarrow> u32 \<Rightarrow> u32 \<Rightarrow> u32" where
  "ch x y z = (x AND y) XOR (NOT x AND z)"

definition maj :: "u32 \<Rightarrow> u32 \<Rightarrow> u32 \<Rightarrow> u32" where
  "maj x y z = (x AND y) XOR (x AND z) XOR (y AND z)"

text \<open>The message schedule is built in reverse, the most recent word first.\<close>

fun schedule :: "nat \<Rightarrow> u32 list \<Rightarrow> u32 list" where
  "schedule 0 ws = ws"
| "schedule (Suc n) ws =
     schedule n ((ssig1 (ws ! 1) + ws ! 6 + ssig0 (ws ! 14) + ws ! 15) # ws)"

fun rounds :: "u32 list \<Rightarrow> u32 list \<Rightarrow> sha_state \<Rightarrow> sha_state" where
  "rounds (k # ks) (w # ws) (a, b, c, d, e, f, g, h) =
     rounds ks ws
       (h + bsig1 e + ch e f g + k + w + (bsig0 a + maj a b c), a, b, c,
        d + (h + bsig1 e + ch e f g + k + w), e, f, g)"
| "rounds _ _ st = st"

fun be32 :: "buffer \<Rightarrow> u32 list" where
  "be32 (a # b # c # d # rest) =
     (push_bit 24 (ucast a) OR push_bit 16 (ucast b) OR push_bit 8 (ucast c) OR ucast d)
     # be32 rest"
| "be32 _ = []"

fun add_state :: "sha_state \<Rightarrow> sha_state \<Rightarrow> sha_state" where
  "add_state (a, b, c, d, e, f, g, h) (a', b', c', d', e', f', g', h') =
     (a + a', b + b', c + c', d + d', e + e', f + f', g + g', h + h')"

definition compress :: "sha_state \<Rightarrow> buffer \<Rightarrow> sha_state" where
  "compress st block =
     add_state st (rounds K256 (rev (schedule 48 (rev (be32 block)))) st)"

fun blocks :: "nat \<Rightarrow> sha_state \<Rightarrow> buffer \<Rightarrow> sha_state" where
  "blocks 0 st bs = st"
| "blocks (Suc n) st bs = blocks n (compress st (take 64 bs)) (drop 64 bs)"

definition be_bytes :: "nat \<Rightarrow> nat \<Rightarrow> buffer" where
  "be_bytes n v = map (\<lambda>i. of_nat (v div 256 ^ (n - 1 - i))) [0..<n]"

definition sha_pad :: "buffer \<Rightarrow> buffer" where
  "sha_pad m =
     m @ [0x80] @ replicate ((119 - length m mod 64) mod 64) 0 @ be_bytes 8 (8 * length m)"

fun state_bytes :: "sha_state \<Rightarrow> buffer" where
  "state_bytes (a, b, c, d, e, f, g, h) =
     concat (map (\<lambda>w. be_bytes 4 (unat w)) [a, b, c, d, e, f, g, h])"

definition sha256 :: "buffer \<Rightarrow> buffer" where
  "sha256 m = state_bytes (blocks (length (sha_pad m) div 64) H256 (sha_pad m))"

definition hmac_key :: "buffer \<Rightarrow> buffer" where
  "hmac_key key =
     (let k = (if length key > 64 then sha256 key else key)
      in k @ replicate (64 - length k) 0)"

definition hmac_sha256 :: "buffer \<Rightarrow> buffer \<Rightarrow> buffer" where
  "hmac_sha256 key msg =
     sha256 (map (\<lambda>b. b XOR 0x5c) (hmac_key key)
             @ sha256 (map (\<lambda>b. b XOR 0x36) (hmac_key key) @ msg))"

text \<open>
  The library reaches the MAC through \<open>createHmac('sha256', secretKey)\<close>; the
  functions below take it as their first argument, from the key bytes and the
  message bytes to the digest.
\<close>

type_synonym hmac = "buffer \<Rightarrow> buffer \<Rightarrow> buffer"

subsection \<open>Numbers and text\<close>

text \<open>
  Template-literal conversion of a number that is an integer or \<open>NaN\<close>.
\<close>

definition digit_char :: "nat \<Rightarrow> char" where
  "digit_char d = char_of (48 + d)"

fun nat_digits :: "nat \<Rightarrow> string" where
  "nat_digits n =
     (if n < 10 then [digit_char n] else nat_digits (n div 10) @ [digit_char (n mod 10)])"

definition numberToString :: "int option \<Rightarrow> string" where
  "numberToString x =
     (case x of
        None \<Rightarrow> ''NaN''
      | Some n \<Rightarrow> if n < 0 then CHR ''-'' # nat_digits (nat (- n)) else nat_digits (nat n))"

definition replaceAll :: "char \<Rightarrow> char \<Rightarrow> string \<Rightarrow> string" where
  "replaceAll a b s = map (\<lambda>c. if c = a then b else c) s"

text \<open>\<open>s.split(sep)\<close> for a separator of one character.\<close>

fun split :: "'a \<Rightarrow> 'a list \<Rightarrow> 'a list list" where
  "split sep [] = [[]]"
| "split sep (x # xs) =
     (if x = sep then [] # split sep xs
      else (x # hd (split sep xs)) # tl (split sep xs))"

text \<open>
  \<open>parseInt(s, 10)\<close>: leading white space is skipped, a sign is read, then the
  longest run of decimal digits; anything after it is ignored.  Without a digit
  the result is \<open>NaN\<close>.  The result is kept as the exact integer.
\<close>

definition isStrWhiteSpace :: "nat \<Rightarrow> bool" where
  "isStrWhiteSpace cp =
     (cp \<in> {9, 10, 11, 12, 13, 32, 160, 5760, 8232, 8233, 8239, 8287, 12288, 65279}
      \<or> (8192 \<le> cp \<and> cp \<le> 8202))"

definition isDigit :: "nat \<Rightarrow> bool" where
  "isDigit cp = (48 \<le> cp \<and> cp \<le> 57)"

definition digits_value :: "codepoints \<Rightarrow> int" where
  "digits_value ds = foldl (\<lambda>acc d. 10 * acc + (int d - 48)) 0 ds"

definition parseInt :: "codepoints \<Rightarrow> int option" where
  "parseInt inputString =
     (let S = dropWhile isStrWhiteSpace inputString;
          sign = (if S \<noteq> [] \<and> hd S = 45 then - 1 else 1);
          S' = (if S \<noteq> [] \<and> (hd S = 43 \<or> hd S = 45) then tl S else S);
          Z = takeWhile isDigit S'
      in if Z = [] then None else Some (sign * digits_value Z))"

fun indexOf :: "'a list \<Rightarrow> 'a \<Rightarrow> nat option" where
  "indexOf [] v = None"
| "indexOf (x # xs) v = (if x = v then Some 0 else map_option Suc (indexOf xs v))"

text \<open>\<open>crypto.timingSafeEqual\<close> throws when the byte lengths differ.\<close>

definition timingSafeEqual :: "buffer \<Rightarrow> buffer \<Rightarrow> thrown + bool" where
  "timingSafeEqual a b = (if length a \<noteq> length b then Inl RangeError else Inr (a = b))"

text \<open>\<open>Buffer.from(s, 'base64')\<close> returns a buffer for every string.\<close>

definition Buffer_from_base64 :: "string \<Rightarrow> thrown + buffer" where
  "Buffer_from_base64 s = Inr (base64_decode s)"

section \<open>generator.ts\<close>

definition newLicenseGenerator :: "string \<Rightarrow> thrown + LicenseGenerator" where
  "newLicenseGenerator key =
     (if key = [] \<or> length (trim key) = 0 then Inl (Error ''Secret key cannot be empty'')
      else Inr \<lparr>LicenseGenerator.secretKey = key\<rparr>)"

definition toBase64Url :: "buffer \<Rightarrow> string" where
  "toBase64Url buf =
     filter (\<lambda>c. c \<noteq> CHR ''='')
       (replaceAll (CHR ''/'') (CHR ''_'') (replaceAll (CHR ''+'') (CHR ''-'') (base64_encode buf)))"

text \<open>
  \<open>hours\<close> ranges over the whole numbers; with them every arithmetic step of
  the source is exact within the range of dates.
\<close>

definition generateKeyWithTimestamp ::
  "hmac \<Rightarrow> LicenseGenerator \<Rightarrow> int \<Rightarrow> date \<Rightarrow> thrown + string" where
  "generateKeyWithTimestamp H g hours issued =
     (if hours \<le> 0 then Inl (Error ''Hours must be greater than 0'')
      else (case issued of
        None \<Rightarrow> Inl (Error ''Invalid issued timestamp'')
      | Some t \<Rightarrow>
          let expires = newDate (t + hours * 60 * 60 * 1000);
              issuedTimestamp = Some (t div 1000);
              expiresTimestamp = map_option (\<lambda>e. e div 1000) expires;
              payload = numberToString issuedTimestamp @ '':'' @ numberToString expiresTimestamp;
              signature = H (utf8_encode (LicenseGenerator.secretKey g)) (utf8_encode payload);
              payloadBuffer = utf8_encode payload;
              separatorBuffer = utf8_encode ''.'';
              data = payloadBuffer @ separatorBuffer @ signature;
              encoded = toBase64Url data
          in Inr (LICENSE_PREFIX @ encoded)))"

text \<open>\<open>generateKey\<close> reads the clock, which is the argument \<open>now\<close>.\<close>

definition generateKey :: "hmac \<Rightarrow> LicenseGenerator \<Rightarrow> int \<Rightarrow> int \<Rightarrow> thrown + string" where
  "generateKey H g hours now = generateKeyWithTimestamp H g hours (newDate now)"

section \<open>validator.ts\<close>

definition newLicenseValidator :: "string \<Rightarrow> thrown + LicenseValidator" where
  "newLicenseValidator key =
     (if key = [] \<or> length (trim key) = 0 then Inl (Error ''Secret key cannot be empty'')
      else Inr \<lparr>LicenseValidator.secretKey = key\<rparr>)"

definition fromBase64Url :: "string \<Rightarrow> thrown + buffer" where
  "fromBase64Url str =
     (let paddingNeeded = 4 - length str mod 4;
          padded = (if paddingNeeded \<noteq> 4 then str @ replicate paddingNeeded (CHR ''='') else str);
          base64 = replaceAll (CHR ''_'') (CHR ''/'') (replaceAll (CHR ''-'') (CHR ''+'') padded)
      in (case Buffer_from_base64 base64 of
            Inl error \<Rightarrow> Inl (Error ''Invalid base64url string'')
          | Inr buf \<Rightarrow> Inr buf))"

text \<open>The body of the \<open>try\<close> block that reads the two timestamps.\<close>

definition parseTimestamps :: "codepoints list \<Rightarrow> thrown + (int \<times> int)" where
  "parseTimestamps parts =
     (let issuedPart = parts ! 0;
          expiresPart = parts ! 1
      in if issuedPart = [] \<or> expiresPart = [] then Inl (LicenseError INVALID_DATA)
         else (case (parseInt issuedPart, parseInt expiresPart) of
                 (Some issuedTimestamp, Some expiresTimestamp) \<Rightarrow>
                   Inr (issuedTimestamp, expiresTimestamp)
               | _ \<Rightarrow> Inl (LicenseError TIME_ERROR)))"

definition validateKeyAtTime ::
  "hmac \<Rightarrow> LicenseValidator \<Rightarrow> string \<Rightarrow> date \<Rightarrow> thrown + LicenseInfo" where
  "validateKeyAtTime H v licenseKey currentTime =
     (if licenseKey = [] then Inl (LicenseError INVALID_FORMAT)
      else if take (length LICENSE_PREFIX) licenseKey \<noteq> LICENSE_PREFIX
      then Inl (LicenseError INVALID_FORMAT)
      else
       (case fromBase64Url (drop (length LICENSE_PREFIX) licenseKey) of
          Inl error \<Rightarrow> Inl (LicenseError BASE64_ERROR)
        | Inr data \<Rightarrow>
       (case indexOf data 0x2E of
          None \<Rightarrow> Inl (LicenseError INVALID_FORMAT)
        | Some separatorIndex \<Rightarrow>
       (let payload = take separatorIndex data;
            providedSignature = drop (separatorIndex + 1) data;
            expectedSignature = H (utf8_encode (LicenseValidator.secretKey v)) payload
        in
       (case timingSafeEqual providedSignature expectedSignature of
          Inl error \<Rightarrow> Inl error
        | Inr same \<Rightarrow>
        if \<not> same then Inl (LicenseError INVALID_SIGNATURE)
        else
       (let payloadStr = utf8_decode payload;
            parts = split 58 payloadStr
        in
        if length parts \<noteq> 2 then Inl (LicenseError INVALID_FORMAT)
        else
       (case parseTimestamps parts of
          Inl error \<Rightarrow> Inl (LicenseError TIME_ERROR)
        | Inr (issuedTimestamp, expiresTimestamp) \<Rightarrow>
        if issuedTimestamp \<le> 0 \<or> expiresTimestamp \<le> 0 then Inl (LicenseError INVALID_DATA)
        else if expiresTimestamp \<le> issuedTimestamp then Inl (LicenseError INVALID_DATA)
        else
       (let issued = newDate (issuedTimestamp * 1000);
            expires = newDate (expiresTimestamp * 1000)
        in
        if issued = None \<or> expires = None then Inl (LicenseError TIME_ERROR)
        else
       (case (currentTime, expires) of
          (Some c, Some e) \<Rightarrow>
           (let valid = (c < e);
                remaining = (if valid then max 0 (of_int (e - c) / (1000 * 60 * 60)) else 0)
            in if \<not> valid then Inl (LicenseError EXPIRED)
               else Inr \<lparr>isValid = valid, issuedAt = issued, expiresAt = expires,
                         hoursRemaining = remaining\<rparr>)
        | _ \<Rightarrow> Inl (LicenseError EXPIRED))))))))))"


section \<open>Auxiliary notions\<close>

text \<open>The six-bit groups of a buffer, before they are turned into characters.\<close>

fun enc_sextets :: "buffer \<Rightarrow> nat list" where
  "enc_sextets [] = []"
| "enc_sextets [a] = [unat a div 4, (unat a mod 4) * 16]"
| "enc_sextets [a, b] = [unat a div 4, (unat a mod 4) * 16 + unat b div 16, (unat b mod 16) * 4]"
| "enc_sextets (a # b # c # rest) =
     [unat a div 4, (unat a mod 4) * 16 + unat b div 16,
      (unat b mod 16) * 4 + unat c div 64, unat c mod 64] @ enc_sextets rest"

text \<open>The URL-safe character of a six-bit group, and the way back to the standard one.\<close>

definition url_char :: "nat \<Rightarrow> char" where
  "url_char v =
     (if b64_char v = CHR ''+'' then CHR ''-''
      else if b64_char v = CHR ''/'' then CHR ''_'' else b64_char v)"

definition std_char :: "char \<Rightarrow> char" where
  "std_char c = (if c = CHR ''-'' then CHR ''+'' else if c = CHR ''_'' then CHR ''/'' else c)"

text \<open>
  The gates of \<open>validateKeyAtTime\<close>, named one by one: the payload bytes of a
  token whose format, encoding and signature are accepted; the two timestamps of a
  payload that parses; the comparison with the current time.
\<close>

definition tokenPayload :: "hmac \<Rightarrow> LicenseValidator \<Rightarrow> string \<Rightarrow> thrown + buffer" where
  "tokenPayload H v licenseKey =
     (if licenseKey = [] then Inl (LicenseError INVALID_FORMAT)
      else if take (length LICENSE_PREFIX) licenseKey \<noteq> LICENSE_PREFIX
      then Inl (LicenseError INVALID_FORMAT)
      else
       (case fromBase64Url (drop (length LICENSE_PREFIX) licenseKey) of
          Inl error \<Rightarrow> Inl (LicenseError BASE64_ERROR)
        | Inr data \<Rightarrow>
       (case indexOf data 0x2E of
          None \<Rightarrow> Inl (LicenseError INVALID_FORMAT)
        | Some i \<Rightarrow>
       (case timingSafeEqual (drop (i + 1) data)
               (H (utf8_encode (LicenseValidator.secretKey v)) (take i data)) of
          Inl error \<Rightarrow> Inl error
        | Inr same \<Rightarrow>
            if \<not> same then Inl (LicenseError INVALID_SIGNATURE) else Inr (take i data)))))"

definition payloadTimes :: "buffer \<Rightarrow> thrown + (int \<times> int)" where
  "payloadTimes payload =
     (let parts = split 58 (utf8_decode payload)
      in if length parts \<noteq> 2 then Inl (LicenseError INVALID_FORMAT)
         else
          (case parseTimestamps parts of
             Inl error \<Rightarrow> Inl (LicenseError TIME_ERROR)
           | Inr (i, e) \<Rightarrow>
               if i \<le> 0 \<or> e \<le> 0 then Inl (LicenseError INVALID_DATA)
               else if e \<le> i then Inl (LicenseError INVALID_DATA)
               else if newDate (i * 1000) = None \<or> newDate (e * 1000) = None
               then Inl (LicenseError TIME_ERROR)
               else Inr (i, e)))"

definition temporalGate :: "int \<times> int \<Rightarrow> date \<Rightarrow> thrown + LicenseInfo" where
  "temporalGate ie currentTime =
     (case currentTime of
        None \<Rightarrow> Inl (LicenseError EXPIRED)
      | Some c \<Rightarrow>
          if c < snd ie * 1000
          then Inr \<lparr>isValid = True, issuedAt = Some (fst ie * 1000),
                    expiresAt = Some (snd ie * 1000),
                    hoursRemaining = of_int (snd ie * 1000 - c) / 3600000\<rparr>
          else Inl (LicenseError EXPIRED))"

text \<open>The token that carries the payload \<open>p\<close> signed under the secret \<open>key\<close>.\<close>

definition signedToken :: "hmac \<Rightarrow> string \<Rightarrow> buffer \<Rightarrow> string" where
  "signedToken H key p = LICENSE_PREFIX @ toBase64Url (p @ [0x2E] @ H (utf8_encode key) p)"




text \<open>
  A way of tampering with a token: its last character is replaced by the next
  character of the URL-safe alphabet.
\<close>

definition bump_last :: "string \<Rightarrow> string" where
  "bump_last tok = butlast tok @ [url_char (the (unbase64 (last tok)) + 1)]"

section \<open>Base64: decoding inverts encoding\<close>

lemma all_less_64: "(\<forall>v<64. P v) = (P 0 \<and> P 1 \<and> list_all P [2..<64])"
proof -
  have a: "[0..<64::nat] = 0 # [Suc 0..<64]" by (rule upt_conv_Cons) simp
  have b: "[Suc 0..<64] = Suc 0 # [Suc (Suc 0)..<64]" by (rule upt_conv_Cons) simp
  have c: "Suc (Suc 0) = 2" by simp
  have "(\<forall>v<64. P v) = list_all P [0..<64]" by (auto simp: list_all_iff)
  also have "\<dots> = (P 0 \<and> P (Suc 0) \<and> list_all P [2..<64])"
    by (simp only: a b c) (simp del: upt_rec_numeral)
  finally show ?thesis by simp
qed

lemma b64_char_table:
  "\<forall>v<64. b64_char v \<noteq> CHR ''='' \<and> url_char v \<noteq> CHR ''=''
      \<and> std_char (url_char v) \<noteq> CHR ''=''
      \<and> unbase64 (std_char (url_char v)) = Some v
      \<and> unbase64 (url_char v) = Some v"
  unfolding all_less_64
  by (simp add: b64_char_def b64_alphabet_def url_char_def std_char_def unbase64_def)

lemma b64_char_not_pad: "v < 64 \<Longrightarrow> b64_char v \<noteq> CHR ''=''"
  and url_char_not_pad: "v < 64 \<Longrightarrow> url_char v \<noteq> CHR ''=''"
  and std_url_char_not_pad: "v < 64 \<Longrightarrow> std_char (url_char v) \<noteq> CHR ''=''"
  and unbase64_std_url_char: "v < 64 \<Longrightarrow> unbase64 (std_char (url_char v)) = Some v"
  and unbase64_url_char: "v < 64 \<Longrightarrow> unbase64 (url_char v) = Some v"
  using b64_char_table by blast+

lemma replaceAll_Nil [simp]: "replaceAll a b [] = []"
  and replaceAll_Cons [simp]: "replaceAll a b (c # s) = (if c = a then b else c) # replaceAll a b s"
  and replaceAll_append [simp]: "replaceAll a b (s @ t) = replaceAll a b s @ replaceAll a b t"
  by (simp_all add: replaceAll_def)

lemma replaceAll_std:
  "replaceAll (CHR ''_'') (CHR ''/'') (replaceAll (CHR ''-'') (CHR ''+'') s) = map std_char s"
  by (induction s) (simp_all add: std_char_def)


lemma unat_byte_less: "unat (a::byte) < 256"
  using unsigned_less [of a, where 'a = nat] by simp

lemma nat_sextet_bounds:
  fixes x y z :: nat
  assumes "x < 256" "y < 256" "z < 256"
  shows "x div 4 < 64" "x mod 4 * 16 < 64" "x mod 4 * 16 + y div 16 < 64"
    "y mod 16 * 4 < 64" "y mod 16 * 4 + z div 64 < 64" "z mod 64 < 64"
proof -
  have x4: "x mod 4 < 4" and y16: "y mod 16 < 16" by simp_all
  have yd: "y div 16 < 16" using assms(2) by (intro less_mult_imp_div_less) simp
  have zd: "z div 64 < 4" using assms(3) by (intro less_mult_imp_div_less) simp
  show "x div 4 < 64" using assms(1) by (intro less_mult_imp_div_less) simp
  show "x mod 4 * 16 < 64" using x4 by linarith
  show "x mod 4 * 16 + y div 16 < 64" using x4 yd by linarith
  show "y mod 16 * 4 < 64" using y16 by linarith
  show "y mod 16 * 4 + z div 64 < 64" using y16 zd by linarith
  show "z mod 64 < 64" by simp
qed

lemma nat_sextet_join:
  fixes x y z :: nat
  assumes "x < 256" "y < 256" "z < 256"
  shows "x div 4 * 4 + (x mod 4 * 16 + y div 16) div 16 = x"
    and "x div 4 * 4 + (x mod 4 * 16) div 16 = x"
    and "(x mod 4 * 16 + y div 16) mod 16 * 16 + (y mod 16 * 4 + z div 64) div 4 = y"
    and "(x mod 4 * 16 + y div 16) mod 16 * 16 + (y mod 16 * 4) div 4 = y"
    and "(y mod 16 * 4 + z div 64) mod 4 * 64 + z mod 64 = z"
proof -
  have yd: "y div 16 < 16" using assms(2) by (intro less_mult_imp_div_less) simp
  have zd: "z div 64 < 4" using assms(3) by (intro less_mult_imp_div_less) simp
  have a: "(x mod 4 * 16 + y div 16) div 16 = x mod 4" using yd by simp
  have b: "(x mod 4 * 16 + y div 16) mod 16 = y div 16" using yd by simp
  have c: "(y mod 16 * 4 + z div 64) div 4 = y mod 16" using zd by simp
  have d: "(y mod 16 * 4 + z div 64) mod 4 = z div 64" using zd by simp
  show "x div 4 * 4 + (x mod 4 * 16 + y div 16) div 16 = x" by (simp add: a)
  show "x div 4 * 4 + (x mod 4 * 16) div 16 = x" by simp
  show "(x mod 4 * 16 + y div 16) mod 16 * 16 + (y mod 16 * 4 + z div 64) div 4 = y"
    using yd by (simp add: b c)
  show "(x mod 4 * 16 + y div 16) mod 16 * 16 + (y mod 16 * 4) div 4 = y"
    using yd by (simp add: b)
  show "(y mod 16 * 4 + z div 64) mod 4 * 64 + z mod 64 = z" using zd by (simp add: d)
qed


lemma b64_bytes_enc_sextets: "b64_bytes (enc_sextets buf) = buf"
proof (induction buf rule: enc_sextets.induct)
  case 1
  show ?case by simp
next
  case (2 a)
  show ?case using nat_sextet_join(2) [OF unat_byte_less [of a]] by simp
next
  case (3 a b)
  show ?case
    using nat_sextet_join(1,4) [OF unat_byte_less [of a] unat_byte_less [of b] unat_byte_less [of b]]
    by simp
next
  case (4 a b c rest)
  then show ?case
    using nat_sextet_join(1,3,5) [OF unat_byte_less [of a] unat_byte_less [of b] unat_byte_less [of c]]
    by simp
qed

lemma sextet_bounds:
  "unat (a::byte) div 4 < 64"
  "unat (a::byte) mod 4 * 16 < 64"
  "unat (a::byte) mod 4 * 16 + unat (b::byte) div 16 < 64"
  "unat (b::byte) mod 16 * 4 < 64"
  "unat (b::byte) mod 16 * 4 + unat (c::byte) div 64 < 64"
  "unat (c::byte) mod 64 < 64"
  using nat_sextet_bounds [OF unat_byte_less [of a] unat_byte_less [of b] unat_byte_less [of c]]
  by blast+

lemma enc_sextets_bound: "s \<in> set (enc_sextets buf) \<Longrightarrow> s < 64"
  by (induction buf rule: enc_sextets.induct) (auto simp: sextet_bounds)



lemma to_url_filter:
  "v < 64 \<Longrightarrow>
   filter (\<lambda>c. c \<noteq> CHR ''='') (replaceAll (CHR ''/'') (CHR ''_'')
      (replaceAll (CHR ''+'') (CHR ''-'') (b64_char v # s)))
   = url_char v # filter (\<lambda>c. c \<noteq> CHR ''='') (replaceAll (CHR ''/'') (CHR ''_'')
      (replaceAll (CHR ''+'') (CHR ''-'') s))"
  using b64_char_not_pad [of v] by (simp add: url_char_def)

lemma toBase64Url_sextets: "toBase64Url buf = map url_char (enc_sextets buf)"
proof (induction buf rule: enc_sextets.induct)
  case 1
  show ?case by (simp add: toBase64Url_def)
next
  case (2 a)
  show ?case
    unfolding toBase64Url_def base64_encode.simps enc_sextets.simps
    by (simp only: to_url_filter sextet_bounds) simp
next
  case (3 a b)
  show ?case
    unfolding toBase64Url_def base64_encode.simps enc_sextets.simps
    by (simp only: to_url_filter sextet_bounds) simp
next
  case (4 a b c rest)
  have "toBase64Url (a # b # c # rest) =
      [url_char (unat a div 4), url_char (unat a mod 4 * 16 + unat b div 16),
       url_char (unat b mod 16 * 4 + unat c div 64), url_char (unat c mod 64)]
      @ toBase64Url rest"
    unfolding toBase64Url_def base64_encode.simps append_Cons append_Nil
    by (simp only: to_url_filter sextet_bounds)
  then show ?case using 4 by simp
qed

lemma b64_sextets_pad: "b64_sextets (replicate k (CHR ''='')) = []"
  by (cases k) simp_all

lemma b64_sextets_url:
  "\<forall>s \<in> set ss. s < 64 \<Longrightarrow>
   b64_sextets (map std_char (map url_char ss @ replicate k (CHR ''=''))) = ss"
proof (induction ss)
  case Nil
  show ?case using b64_sextets_pad [of k] by (simp add: std_char_def)
next
  case (Cons s ss)
  then show ?case
    by (simp add: std_url_char_not_pad unbase64_std_url_char)
qed

lemma fromBase64Url_url:
  assumes "\<forall>s \<in> set ss. s < 64"
  shows "fromBase64Url (map url_char ss) = Inr (b64_bytes ss)"
proof -
  have "b64_sextets (map std_char (map url_char ss)) = ss"
    using b64_sextets_url [OF assms, of 0] by simp
  moreover have "b64_sextets (map std_char (map url_char ss @ replicate k (CHR ''=''))) = ss" for k
    using b64_sextets_url [OF assms] by simp
  ultimately show ?thesis
    by (simp add: fromBase64Url_def Buffer_from_base64_def base64_decode_def replaceAll_std Let_def
        del: map_append)
qed

lemma fromBase64Url_toBase64Url: "fromBase64Url (toBase64Url buf) = Inr buf"
  using fromBase64Url_url [of "enc_sextets buf"] enc_sextets_bound [of _ buf]
  by (simp add: toBase64Url_sextets b64_bytes_enc_sextets)



section \<open>Text: UTF-8, decimal digits, splitting\<close>

declare nat_digits.simps [simp del]
declare utf8_decode.simps(2) [simp del]

lemma unat_byte_of_char: "unat (byte_of_char c) = of_char c"
  by (simp add: byte_of_char_def unat_of_nat)

lemma utf8_decode_ascii_Cons: "unat b < 128 \<Longrightarrow> utf8_decode (b # bs) = unat b # utf8_decode bs"
  by (simp add: utf8_decode.simps(2))

lemma utf8_decode_encode_ascii:
  "\<forall>c \<in> set s. (of_char c :: nat) < 128 \<Longrightarrow> utf8_decode (utf8_encode s) = map of_char s"
  by (induction s)
     (simp_all add: utf8_encode_def utf8_char_def utf8_decode_ascii_Cons unat_byte_of_char)

lemma utf8_encode_ascii:
  "\<forall>c \<in> set s. (of_char c :: nat) < 128 \<Longrightarrow> utf8_encode s = map byte_of_char s"
  by (induction s) (simp_all add: utf8_encode_def utf8_char_def)

lemma of_char_digit_char: "d < 10 \<Longrightarrow> (of_char (digit_char d) :: nat) = 48 + d"
  by (simp add: digit_char_def)

lemma nat_digits_isDigit: "c \<in> set (nat_digits n) \<Longrightarrow> isDigit (of_char c)"
proof (induction n rule: nat_digits.induct)
  case (1 n)
  show ?case
  proof (cases "n < 10")
    case True
    with 1(2) show ?thesis
      by (simp add: nat_digits.simps [of n] isDigit_def of_char_digit_char)
  next
    case False
    with 1 show ?thesis
      by (auto simp: nat_digits.simps [of n] isDigit_def of_char_digit_char)
  qed
qed

lemma nat_digits_not_Nil: "nat_digits n \<noteq> []"
  by (subst nat_digits.simps) simp

lemma digits_value_snoc: "digits_value (ds @ [d]) = 10 * digits_value ds + (int d - 48)"
  by (simp add: digits_value_def)

lemma digits_value_nat_digits: "digits_value (map of_char (nat_digits n)) = int n"
proof (induction n rule: nat_digits.induct)
  case (1 n)
  show ?case
  proof (cases "n < 10")
    case True
    then show ?thesis
      by (simp add: nat_digits.simps [of n] digits_value_def of_char_digit_char)
  next
    case False
    then have h: "digits_value (map of_char (nat_digits n)) =
        10 * int (n div 10) + int (n mod 10)"
      using 1 by (simp add: nat_digits.simps [of n] digits_value_snoc of_char_digit_char)
    have e: "10 * int (n div 10) + int (n mod 10) = int (10 * (n div 10) + n mod 10)"
      by (simp only: of_nat_add of_nat_mult of_nat_numeral)
    show ?thesis by (simp only: h e mult_div_mod_eq)
  qed
qed

lemma isDigit_not_space: "isDigit c \<Longrightarrow> \<not> isStrWhiteSpace c"
  by (auto simp: isDigit_def isStrWhiteSpace_def)

lemma parseInt_digits:
  assumes "ds \<noteq> []" "\<forall>d \<in> set ds. isDigit d"
  shows "parseInt ds = Some (digits_value ds)"
proof -
  obtain d ds' where ds: "ds = d # ds'" using assms(1) by (cases ds) auto
  have d: "isDigit d" using assms(2) ds by simp
  then have "d \<noteq> 45" "d \<noteq> 43" by (auto simp: isDigit_def)
  moreover have "dropWhile isStrWhiteSpace ds = ds"
    using isDigit_not_space [OF d] ds by simp
  moreover have "takeWhile isDigit ds = ds" using assms(2) by (simp add: takeWhile_eq_all_conv)
  ultimately show ?thesis using ds by (simp add: parseInt_def Let_def)
qed

lemma parseInt_nat_digits: "parseInt (map of_char (nat_digits n)) = Some (int n)"
  using parseInt_digits [of "map of_char (nat_digits n)"] nat_digits_isDigit [of _ n]
  by (simp add: nat_digits_not_Nil digits_value_nat_digits)

lemma split_no_sep: "sep \<notin> set xs \<Longrightarrow> split sep xs = [xs]"
  by (induction xs) auto

lemma split_at_sep: "sep \<notin> set xs \<Longrightarrow> split sep (xs @ sep # ys) = xs # split sep ys"
  by (induction xs) auto

lemma indexOf_append: "v \<notin> set xs \<Longrightarrow> indexOf (xs @ v # ys) v = Some (length xs)"
  by (induction xs) auto

lemma indexOf_Some: "indexOf xs v = Some i \<Longrightarrow> i < length xs \<and> xs ! i = v \<and> v \<notin> set (take i xs)"
proof (induction xs arbitrary: i)
  case Nil
  then show ?case by simp
next
  case (Cons x xs)
  then show ?case by (cases i) (auto split: if_splits)
qed



section \<open>The gates of the validator\<close>

lemma newDate_eq_None: "(newDate x = None) = (\<not> \<bar>x\<bar> \<le> MAX_TIME)"
  and newDate_eq_Some: "(newDate x = Some y) = (\<bar>x\<bar> \<le> MAX_TIME \<and> y = x)"
  by (auto simp: newDate_def)

lemma validate_gates:
  "validateKeyAtTime H v k now =
     (case tokenPayload H v k of
        Inl err \<Rightarrow> Inl err
      | Inr p \<Rightarrow> (case payloadTimes p of Inl err \<Rightarrow> Inl err | Inr ie \<Rightarrow> temporalGate ie now))"
  unfolding validateKeyAtTime_def tokenPayload_def payloadTimes_def
  by (auto simp: Let_def newDate_def temporalGate_def max_def
      split: sum.split option.split prod.split)



lemma utf8_encode_dot: "utf8_encode ''.'' = [0x2E]"
  by (simp add: utf8_encode_def utf8_char_def byte_of_char_def)

lemma timingSafeEqual_same: "timingSafeEqual a a = Inr True"
  by (simp add: timingSafeEqual_def)

lemma tokenPayload_signed:
  assumes "0x2E \<notin> set p" and "LicenseValidator.secretKey v = key"
  shows "tokenPayload H v (signedToken H key p) = Inr p"
proof -
  have "indexOf (p @ 0x2E # H (utf8_encode key) p) 0x2E = Some (length p)"
    using assms(1) by (rule indexOf_append)
  then show ?thesis
    using assms(2)
    by (simp add: tokenPayload_def signedToken_def LICENSE_PREFIX_def
        fromBase64Url_toBase64Url timingSafeEqual_same)
qed

lemma generate_signedToken:
  assumes "0 < hours"
  shows "generateKeyWithTimestamp H g hours (Some t) =
     Inr (signedToken H (LicenseGenerator.secretKey g)
            (utf8_encode (numberToString (Some (t div 1000)) @ '':'' @
               numberToString (map_option (\<lambda>e. e div 1000) (newDate (t + hours * 3600000))))))"
  using assms
  by (simp add: generateKeyWithTimestamp_def signedToken_def Let_def utf8_encode_dot mult.commute)

lemma digits_ascii: "c \<in> set (nat_digits n) \<Longrightarrow> (of_char c :: nat) < 128"
  using nat_digits_isDigit [of c n] by (simp add: isDigit_def)

lemma digits_no_colon: "(58::nat) \<notin> set (map of_char (nat_digits n))"
proof
  assume "(58::nat) \<in> set (map of_char (nat_digits n))"
  then obtain c where "c \<in> set (nat_digits n)" "of_char c = (58::nat)" by auto
  then show False using nat_digits_isDigit [of c n] by (simp add: isDigit_def)
qed

lemma payload_text:
  "utf8_decode (utf8_encode (nat_digits i @ '':'' @ nat_digits e)) =
     map of_char (nat_digits i) @ 58 # map of_char (nat_digits e)"
proof -
  have "\<forall>c \<in> set (nat_digits i @ '':'' @ nat_digits e). (of_char c :: nat) < 128"
    using digits_ascii by auto
  then show ?thesis by (simp add: utf8_decode_encode_ascii)
qed

lemma payload_no_dot: "0x2E \<notin> set (utf8_encode (nat_digits i @ '':'' @ nat_digits e))"
proof -
  have a: "\<forall>c \<in> set (nat_digits i @ '':'' @ nat_digits e). (of_char c :: nat) < 128"
    using digits_ascii by auto
  have "unat b \<noteq> 46" if "b \<in> set (map byte_of_char (nat_digits i @ '':'' @ nat_digits e))" for b
  proof -
    from that obtain c where c: "c \<in> set (nat_digits i @ '':'' @ nat_digits e)" "b = byte_of_char c"
      by auto
    then have "isDigit (of_char c) \<or> (of_char c :: nat) = 58"
      using nat_digits_isDigit by auto
    then show ?thesis using c(2) by (auto simp: unat_byte_of_char isDigit_def)
  qed
  then have "0x2E \<in> set (map byte_of_char (nat_digits i @ '':'' @ nat_digits e))
      \<Longrightarrow> unat (0x2E :: byte) \<noteq> 46" .
  then show ?thesis unfolding utf8_encode_ascii [OF a] by auto
qed

lemma payloadTimes_digits:
  "payloadTimes (utf8_encode (nat_digits i @ '':'' @ nat_digits e)) =
     (if i = 0 \<or> e = 0 \<or> e \<le> i then Inl (LicenseError INVALID_DATA)
      else if newDate (int i * 1000) = None \<or> newDate (int e * 1000) = None
      then Inl (LicenseError TIME_ERROR)
      else Inr (int i, int e))"
proof -
  have s: "split (58::nat) (map of_char (nat_digits i) @ 58 # map of_char (nat_digits e)) =
      [map of_char (nat_digits i), map of_char (nat_digits e)]"
    by (simp add: split_at_sep [OF digits_no_colon] split_no_sep [OF digits_no_colon])
  have p: "parseTimestamps [map of_char (nat_digits i), map of_char (nat_digits e)] =
      Inr (int i, int e)"
    by (simp add: parseTimestamps_def parseInt_nat_digits nat_digits_not_Nil)
  show ?thesis
    unfolding payloadTimes_def payload_text s Let_def p by auto
qed



section \<open>A generated token passes every gate but the last\<close>




lemma nat_digits_examples:
  "nat_digits 0 = ''0''" "nat_digits 10 = ''10''" "nat_digits 3600 = ''3600''"
  "nat_digits 3610 = ''3610''"
  by (simp_all add: nat_digits.simps digit_char_def char_of_def bit_Suc_0_iff)

lemma token_10:
  "generateKeyWithTimestamp hmac_sha256 \<lparr>LicenseGenerator.secretKey = ''k''\<rparr> 1 (Some 10000) =
     Inr (signedToken hmac_sha256 ''k'' (utf8_encode ''10:3610''))"
  by (simp add: generate_signedToken newDate_def MAX_TIME_def numberToString_def
      nat_digits_examples)

lemma trim_blank:
  assumes "\<forall>c \<in> set s. isWhiteSpaceChar c"
  shows "trim s = []"
proof -
  have h: "dropWhile isWhiteSpaceChar s = []" using assms by (induction s) auto
  show ?thesis unfolding trim_def h by simp
qed

lemma not_prefixed: "(\<nexists>rest. key = LICENSE_PREFIX @ rest) \<Longrightarrow>
    take (length LICENSE_PREFIX) key \<noteq> LICENSE_PREFIX"
  by (metis append_take_drop_id)














section \<open>The token format\<close>












section \<open>Inputs on which the validator leaves the specified behaviour\<close>

lemma length_be_bytes: "length (be_bytes n v) = n"
  by (simp add: be_bytes_def)

lemma length_state_bytes: "length (state_bytes st) = 32"
  by (induction st rule: state_bytes.induct) (simp add: length_be_bytes)

lemma length_hmac_sha256: "length (hmac_sha256 key msg) = 32"
  by (simp add: hmac_sha256_def sha256_def length_state_bytes)

lemma decode_empty_signature: "fromBase64Url ''MToyLg'' = Inr [0x31, 0x3A, 0x32, 0x2E]"
  by (simp add: fromBase64Url_def Buffer_from_base64_def base64_decode_def unbase64_def Let_def
      numeral_2_eq_2)

lemma decode_short_signature: "fromBase64Url ''MToyLkFB'' = Inr [0x31, 0x3A, 0x32, 0x2E, 0x41, 0x41]"
  by (simp add: fromBase64Url_def Buffer_from_base64_def base64_decode_def unbase64_def Let_def
      numeral_2_eq_2)

lemma decode_garbage: "fromBase64Url ''!!!!'' = Inr []"
  by (simp add: fromBase64Url_def Buffer_from_base64_def base64_decode_def unbase64_def Let_def
      numeral_2_eq_2)

lemma payloadTimes_trailing_garbage: "payloadTimes (utf8_encode ''1:2x'') = Inr (1, 2)"
proof -
  have u: "utf8_decode (utf8_encode ''1:2x'') = [49, 58, 50, 120]"
    by (simp add: utf8_decode_encode_ascii)
  have s: "split (58::nat) [49, 58, 50, 120] = [[49], [50, 120]]" by simp
  have p: "parseInt [49] = Some 1" "parseInt [50, 120] = Some 2"
    by (simp_all add: parseInt_def isStrWhiteSpace_def isDigit_def digits_value_def Let_def)
  show ?thesis
    unfolding payloadTimes_def u s Let_def
    by (simp add: parseTimestamps_def p newDate_def MAX_TIME_def)
qed


lemma enc_sextets_bump:
  "length data mod 3 = 1 \<Longrightarrow>
     enc_sextets data \<noteq> [] \<and> last (enc_sextets data) < 63 \<and>
     b64_bytes (butlast (enc_sextets data) @ [Suc (last (enc_sextets data))]) = data"
proof (induction data rule: enc_sextets.induct)
  case 1
  then show ?case by simp
next
  case (2 a)
  have "unat a mod 4 < 4" by simp
  then have "unat a mod 4 * 16 < 63" by linarith
  moreover have "(unat a mod 4 * 16 + 1) div 16 = unat a mod 4" by simp
  ultimately show ?case by simp
next
  case (3 a b)
  then show ?case by simp
next
  case (4 a b c rest)
  then have r: "enc_sextets rest \<noteq> []" "last (enc_sextets rest) < 63"
    "b64_bytes (butlast (enc_sextets rest) @ [Suc (last (enc_sextets rest))]) = rest"
    by simp_all
  have "b64_bytes (butlast (enc_sextets (a # b # c # rest)) @
        [Suc (last (enc_sextets (a # b # c # rest)))]) =
      b64_bytes ([unat a div 4, unat a mod 4 * 16 + unat b div 16,
        unat b mod 16 * 4 + unat c div 64, unat c mod 64] @
        (butlast (enc_sextets rest) @ [Suc (last (enc_sextets rest))]))"
    using r(1) by (simp add: butlast_append)
  also have "\<dots> = a # b # c # rest"
    using nat_sextet_join(1,3,5) [OF unat_byte_less [of a] unat_byte_less [of b] unat_byte_less [of c]]
    by (simp add: r(3))
  finally show ?case using r(1,2) by simp
qed

lemma tokenPayload_decoded:
  assumes "fromBase64Url body = Inr (p @ 0x2E # H (utf8_encode key) p)"
    and "0x2E \<notin> set p" and "LicenseValidator.secretKey v = key"
  shows "tokenPayload H v (LICENSE_PREFIX @ body) = Inr p"
proof -
  have "indexOf (p @ 0x2E # H (utf8_encode key) p) 0x2E = Some (length p)"
    using assms(2) by (rule indexOf_append)
  then show ?thesis
    using assms(1,3)
    by (simp add: tokenPayload_def LICENSE_PREFIX_def timingSafeEqual_same)
qed

lemma bump_last_token:
  assumes "length data mod 3 = 1"
  shows "bump_last (LICENSE_PREFIX @ toBase64Url data) =
      LICENSE_PREFIX @ map url_char (butlast (enc_sextets data) @ [Suc (last (enc_sextets data))])"
    and "fromBase64Url (map url_char (butlast (enc_sextets data) @ [Suc (last (enc_sextets data))]))
      = Inr data"
    and "last (bump_last (LICENSE_PREFIX @ toBase64Url data)) \<noteq> last (LICENSE_PREFIX @ toBase64Url data)"
    and "butlast (bump_last (LICENSE_PREFIX @ toBase64Url data)) = butlast (LICENSE_PREFIX @ toBase64Url data)"
proof -
  let ?ss = "enc_sextets data"
  from enc_sextets_bump [OF assms] have ne: "?ss \<noteq> []" and l: "last ?ss < 63"
    and b: "b64_bytes (butlast ?ss @ [Suc (last ?ss)]) = data"
    by simp_all
  have l64: "last ?ss < 64" "Suc (last ?ss) < 64" using l by simp_all
  have lt: "last (LICENSE_PREFIX @ toBase64Url data) = url_char (last ?ss)"
    using ne by (simp add: toBase64Url_sextets last_map)
  have bt: "butlast (LICENSE_PREFIX @ toBase64Url data) = LICENSE_PREFIX @ map url_char (butlast ?ss)"
    using ne by (simp add: toBase64Url_sextets butlast_append map_butlast)
  show 1: "bump_last (LICENSE_PREFIX @ toBase64Url data) =
      LICENSE_PREFIX @ map url_char (butlast ?ss @ [Suc (last ?ss)])"
    unfolding bump_last_def lt bt by (simp add: unbase64_url_char [OF l64(1)])
  have "\<forall>s \<in> set (butlast ?ss @ [Suc (last ?ss)]). s < 64"
    using enc_sextets_bound [of _ data] l64(2) by (auto dest: in_set_butlastD)
  from fromBase64Url_url [OF this]
  show "fromBase64Url (map url_char (butlast ?ss @ [Suc (last ?ss)])) = Inr data"
    by (simp add: b)
  have "url_char (Suc (last ?ss)) \<noteq> url_char (last ?ss)"
    using unbase64_url_char [OF l64(1)] unbase64_url_char [OF l64(2)] by auto
  then show "last (bump_last (LICENSE_PREFIX @ toBase64Url data)) \<noteq> last (LICENSE_PREFIX @ toBase64Url data)"
    unfolding 1 lt by simp
  show "butlast (bump_last (LICENSE_PREFIX @ toBase64Url data)) = butlast (LICENSE_PREFIX @ toBase64Url data)"
    unfolding 1 bt by (simp add: butlast_append)
qed

lemma no_dot_10_3610: "0x2E \<notin> set (utf8_encode ''10:3610'')"
  using payload_no_dot [of 10 3610] by (simp add: nat_digits_examples)

lemma payloadTimes_10_3610: "payloadTimes (utf8_encode ''10:3610'') = Inr (10, 3610)"
  using payloadTimes_digits [of 10 3610]
  by (simp add: nat_digits_examples newDate_def MAX_TIME_def)


section \<open>What holds of the gates for every token\<close>

lemma fromBase64Url_total: "\<exists>data. fromBase64Url s = Inr data"
  by (simp add: fromBase64Url_def Buffer_from_base64_def Let_def)

lemma validate_never_base64_error:
  "validateKeyAtTime H v key now \<noteq> Inl (LicenseError BASE64_ERROR)"
proof -
  obtain data where d: "fromBase64Url (drop (length LICENSE_PREFIX) key) = Inr data"
    using fromBase64Url_total by blast
  have t: "tokenPayload H v key \<noteq> Inl (LicenseError BASE64_ERROR)"
    by (auto simp: tokenPayload_def d timingSafeEqual_def split: option.splits)
  have p: "payloadTimes p \<noteq> Inl (LicenseError BASE64_ERROR)" for p
    by (auto simp: payloadTimes_def Let_def split: sum.splits prod.splits)
  have g: "temporalGate ie now \<noteq> Inl (LicenseError BASE64_ERROR)" for ie
    by (auto simp: temporalGate_def split: option.splits)
  show ?thesis
    using t p g by (auto simp: validate_gates split: sum.splits)
qed

lemma tokenPayload_Inr:
  assumes "tokenPayload H v key = Inr p"
  shows "\<exists>data. take (length LICENSE_PREFIX) key = LICENSE_PREFIX \<and>
           fromBase64Url (drop (length LICENSE_PREFIX) key) = Inr data \<and>
           data = p @ 0x2E # H (utf8_encode (LicenseValidator.secretKey v)) p \<and> 0x2E \<notin> set p"
proof -
  from assms obtain data i where
    pre: "take (length LICENSE_PREFIX) key = LICENSE_PREFIX" and
    d: "fromBase64Url (drop (length LICENSE_PREFIX) key) = Inr data" and
    i: "indexOf data 0x2E = Some i" and
    s: "drop (i + 1) data = H (utf8_encode (LicenseValidator.secretKey v)) (take i data)" and
    p: "p = take i data"
    by (auto simp: tokenPayload_def timingSafeEqual_def split: if_splits sum.splits option.splits)
  from indexOf_Some [OF i] have ii: "i < length data" "data ! i = 0x2E" "0x2E \<notin> set (take i data)"
    by simp_all
  have "data = take i data @ data ! i # drop (Suc i) data"
    using ii(1) by (simp add: id_take_nth_drop)
  then have e: "data = p @ 0x2E # H (utf8_encode (LicenseValidator.secretKey v)) p"
    using s p ii(2) by simp
  have np: "0x2E \<notin> set p" using ii(3) p by simp
  show ?thesis
  proof (intro exI conjI)
    show "take (length LICENSE_PREFIX) key = LICENSE_PREFIX" by (rule pre)
    show "fromBase64Url (drop (length LICENSE_PREFIX) key) = Inr data" by (rule d)
    show "data = p @ 0x2E # H (utf8_encode (LicenseValidator.secretKey v)) p" by (rule e)
    show "0x2E \<notin> set p" by (rule np)
  qed
qed

text \<open>
  The signature gate comes first: a failure with \<open>TIME_ERROR\<close>, \<open>INVALID_DATA\<close> or
  \<open>EXPIRED\<close>, and every success, presupposes that the bytes after the first
  separator are the MAC of the bytes before it.
\<close>

lemma signature_checked_first:
  assumes "validateKeyAtTime H v key now = Inl (LicenseError TIME_ERROR) \<or>
           validateKeyAtTime H v key now = Inl (LicenseError INVALID_DATA) \<or>
           validateKeyAtTime H v key now = Inl (LicenseError EXPIRED) \<or>
           (\<exists>info. validateKeyAtTime H v key now = Inr info)"
  shows "\<exists>p. fromBase64Url (drop (length LICENSE_PREFIX) key) =
           Inr (p @ 0x2E # H (utf8_encode (LicenseValidator.secretKey v)) p) \<and> 0x2E \<notin> set p"
proof -
  have "\<exists>p. tokenPayload H v key = Inr p"
  proof (cases "tokenPayload H v key")
    case (Inl err)
    then have "validateKeyAtTime H v key now = Inl err" by (simp add: validate_gates)
    moreover have "err \<noteq> LicenseError TIME_ERROR \<and> err \<noteq> LicenseError INVALID_DATA \<and>
        err \<noteq> LicenseError EXPIRED"
      using Inl
      by (auto simp: tokenPayload_def timingSafeEqual_def
          split: if_splits sum.splits option.splits)
    ultimately show ?thesis using assms by auto
  next
    case (Inr p)
    then show ?thesis by blast
  qed
  then show ?thesis using tokenPayload_Inr by blast
qed

text \<open>A signature of the right length that is not the MAC is answered with \<open>INVALID_SIGNATURE\<close>.\<close>

lemma wrong_signature_same_length:
  assumes "fromBase64Url body = Inr (p @ 0x2E # sg)" and "0x2E \<notin> set p"
    and "length sg = length (H (utf8_encode (LicenseValidator.secretKey v)) p)"
    and "sg \<noteq> H (utf8_encode (LicenseValidator.secretKey v)) p"
  shows "validateKeyAtTime H v (LICENSE_PREFIX @ body) now = Inl (LicenseError INVALID_SIGNATURE)"
proof -
  have "indexOf (p @ 0x2E # sg) 0x2E = Some (length p)"
    using assms(2) by (rule indexOf_append)
  then have "tokenPayload H v (LICENSE_PREFIX @ body) = Inl (LicenseError INVALID_SIGNATURE)"
    using assms(1,3,4) by (simp add: tokenPayload_def LICENSE_PREFIX_def timingSafeEqual_def)
  then show ?thesis by (simp add: validate_gates)
qed

text \<open>A part without a leading integer is answered with \<open>TIME_ERROR\<close>.\<close>

lemma unparsable_part:
  assumes "tokenPayload H v key = Inr p" and "split 58 (utf8_decode p) = [a, b]"
    and "parseInt a = None \<or> parseInt b = None"
  shows "validateKeyAtTime H v key now = Inl (LicenseError TIME_ERROR)"
proof -
  have "parseTimestamps [a, b] = Inl (LicenseError INVALID_DATA) \<or>
      parseTimestamps [a, b] = Inl (LicenseError TIME_ERROR)"
    using assms(3) by (auto simp: parseTimestamps_def split: option.splits)
  then have "payloadTimes p = Inl (LicenseError TIME_ERROR)"
    by (auto simp: payloadTimes_def assms(2))
  then show ?thesis by (simp add: validate_gates assms(1))
qed


section \<open>The claims\<close>






text \<open>
  C3.  The token \<open>alvan-MToyLg\<close> decodes to the bytes of \<open>1:2.\<close>: it passes the
  prefix, decoding and separator gates, and its signature is empty, so that it
  differs from the MAC in length.  The validator does not answer
  \<open>INVALID_SIGNATURE\<close>: the comparison throws \<open>RangeError\<close>, which escapes.
\<close>

theorem C3_length_mismatch:
  "validateKeyAtTime hmac_sha256 \<lparr>LicenseValidator.secretKey = ''k''\<rparr> ''alvan-MToyLg'' (Some 0)
     = Inl RangeError"
  by (simp add: validate_gates tokenPayload_def LICENSE_PREFIX_def decode_empty_signature
      timingSafeEqual_def length_hmac_sha256)

text \<open>
  C4.  The remainder of \<open>alvan-!!!!\<close> has no character of the base64 alphabet, yet
  decoding does not fail: the decoder skips the four characters and returns the
  empty buffer, and the validator answers \<open>INVALID_FORMAT\<close> for the missing
  separator, not \<open>BASE64_ERROR\<close>.
\<close>

theorem C4_decode_never_fails:
  "validateKeyAtTime hmac_sha256 \<lparr>LicenseValidator.secretKey = ''k''\<rparr> ''alvan-!!!!'' (Some 0)
     = Inl (LicenseError INVALID_FORMAT)"
  by (simp add: validate_gates tokenPayload_def LICENSE_PREFIX_def decode_garbage)

text \<open>
  C5.  The token issued under the secret \<open>k\<close> for one hour at 10000 ms carries 40
  bytes, so its last character holds four bits that no byte uses.  Replacing that
  one character by the next character of the alphabet gives a different token of
  the same length that validates successfully.
\<close>

theorem C5_tampered_token_validates:
  "generateKeyWithTimestamp hmac_sha256 \<lparr>LicenseGenerator.secretKey = ''k''\<rparr> 1 (Some 10000)
     = Inr (signedToken hmac_sha256 ''k'' (utf8_encode ''10:3610''))
   \<and> butlast (bump_last (signedToken hmac_sha256 ''k'' (utf8_encode ''10:3610'')))
       = butlast (signedToken hmac_sha256 ''k'' (utf8_encode ''10:3610''))
   \<and> last (bump_last (signedToken hmac_sha256 ''k'' (utf8_encode ''10:3610'')))
       \<noteq> last (signedToken hmac_sha256 ''k'' (utf8_encode ''10:3610''))
   \<and> validateKeyAtTime hmac_sha256 \<lparr>LicenseValidator.secretKey = ''k''\<rparr>
       (bump_last (signedToken hmac_sha256 ''k'' (utf8_encode ''10:3610''))) (Some 10000)
       = Inr \<lparr>isValid = True, issuedAt = Some 10000, expiresAt = Some 3610000,
              hoursRemaining = 1\<rparr>"
proof -
  let ?p = "utf8_encode ''10:3610''"
  let ?data = "?p @ [0x2E] @ hmac_sha256 (utf8_encode ''k'') ?p"
  have "length ?p = 7" by (simp add: utf8_encode_def utf8_char_def)
  then have m: "length ?data mod 3 = 1" by (simp add: length_hmac_sha256)
  note b = bump_last_token [OF m]
  have s: "signedToken hmac_sha256 ''k'' ?p = LICENSE_PREFIX @ toBase64Url ?data"
    by (simp add: signedToken_def)
  have "tokenPayload hmac_sha256 \<lparr>LicenseValidator.secretKey = ''k''\<rparr>
      (bump_last (signedToken hmac_sha256 ''k'' ?p)) = Inr ?p"
    unfolding s b(1)
    by (rule tokenPayload_decoded [OF _ no_dot_10_3610]) (insert b(2), simp_all)
  then have v: "validateKeyAtTime hmac_sha256 \<lparr>LicenseValidator.secretKey = ''k''\<rparr>
       (bump_last (signedToken hmac_sha256 ''k'' ?p)) (Some 10000)
       = Inr \<lparr>isValid = True, issuedAt = Some 10000, expiresAt = Some 3610000,
              hoursRemaining = 1\<rparr>"
    by (simp add: validate_gates payloadTimes_10_3610 temporalGate_def)
  show ?thesis using token_10 b(3,4) v unfolding s by blast
qed

text \<open>
  C6.  The token \<open>alvan-MToyLkFB\<close> decodes to the bytes of \<open>1:2.AA\<close>; its signature
  of two bytes is not the MAC of the payload.  The validator fails with
  \<open>RangeError\<close>, which is none of the format, decode and signature errors.
\<close>

theorem C6_bad_signature_other_error:
  "validateKeyAtTime hmac_sha256 \<lparr>LicenseValidator.secretKey = ''k''\<rparr> ''alvan-MToyLkFB'' (Some 0)
     = Inl RangeError
   \<and> [0x41, 0x41] \<noteq> hmac_sha256 (utf8_encode ''k'') [0x31, 0x3A, 0x32]"
proof -
  have "length (hmac_sha256 (utf8_encode ''k'') [0x31, 0x3A, 0x32]) \<noteq> length [0x41 :: byte, 0x41]"
    by (simp add: length_hmac_sha256)
  then have "[0x41, 0x41] \<noteq> hmac_sha256 (utf8_encode ''k'') [0x31, 0x3A, 0x32]" by metis
  then show ?thesis
    by (simp add: validate_gates tokenPayload_def LICENSE_PREFIX_def decode_short_signature
        timingSafeEqual_def length_hmac_sha256)
qed




text \<open>
  C8.  A secret that is empty or consists of white space only is refused by both
  constructors; a duration of zero or less is refused by the generator whatever
  the MAC function is, so before it is ever called; the validator answers
  \<open>INVALID_FORMAT\<close> to the empty string and to every string that does not start
  with the prefix.
\<close>

theorem C8_construction_guards:
  "((\<forall>c \<in> set s. isWhiteSpaceChar c) \<longrightarrow>
      newLicenseGenerator s = Inl (Error ''Secret key cannot be empty'') \<and>
      newLicenseValidator s = Inl (Error ''Secret key cannot be empty''))
   \<and> (hours \<le> 0 \<longrightarrow>
      generateKeyWithTimestamp H g hours issued = Inl (Error ''Hours must be greater than 0''))
   \<and> validateKeyAtTime H v [] now = Inl (LicenseError INVALID_FORMAT)
   \<and> ((\<nexists>rest. key = LICENSE_PREFIX @ rest) \<longrightarrow>
      validateKeyAtTime H v key now = Inl (LicenseError INVALID_FORMAT))"
proof (intro conjI impI)
  assume "\<forall>c \<in> set s. isWhiteSpaceChar c"
  then have "trim s = []" by (rule trim_blank)
  then show "newLicenseGenerator s = Inl (Error ''Secret key cannot be empty'')"
    and "newLicenseValidator s = Inl (Error ''Secret key cannot be empty'')"
    by (simp_all add: newLicenseGenerator_def newLicenseValidator_def)
next
  assume "hours \<le> 0"
  then show "generateKeyWithTimestamp H g hours issued = Inl (Error ''Hours must be greater than 0'')"
    by (simp add: generateKeyWithTimestamp_def)
next
  show "validateKeyAtTime H v [] now = Inl (LicenseError INVALID_FORMAT)"
    by (simp add: validateKeyAtTime_def)
next
  assume "\<nexists>rest. key = LICENSE_PREFIX @ rest"
  then show "validateKeyAtTime H v key now = Inl (LicenseError INVALID_FORMAT)"
    using not_prefixed [of key] by (simp add: validateKeyAtTime_def)
qed

theorem C8_construction_guards_witness:
  "newLicenseGenerator ''   '' = Inl (Error ''Secret key cannot be empty'')
   \<and> newLicenseValidator ''   '' = Inl (Error ''Secret key cannot be empty'')
   \<and> generateKeyWithTimestamp hmac_sha256 \<lparr>LicenseGenerator.secretKey = ''k''\<rparr> 0 (Some 10000)
       = Inl (Error ''Hours must be greater than 0'')
   \<and> validateKeyAtTime hmac_sha256 \<lparr>LicenseValidator.secretKey = ''k''\<rparr> ''not-alvan-prefixed''
       (Some 10000) = Inl (LicenseError INVALID_FORMAT)"
  using C8_construction_guards [of "''   ''" 0 hmac_sha256 "\<lparr>LicenseGenerator.secretKey = ''k''\<rparr>"
      "Some 10000" "\<lparr>LicenseValidator.secretKey = ''k''\<rparr>" "Some 10000" "''not-alvan-prefixed''"]
  by (simp add: isWhiteSpaceChar_def LICENSE_PREFIX_def)

text \<open>
  C9.  The payload \<open>1:2x\<close>, correctly signed, splits into the two parts \<open>1\<close> and
  \<open>2x\<close>; the second is not a base-10 integer, it has a letter after its digit.
  The validator does not fail with \<open>TIME_ERROR\<close>: it reads the part as 2 and
  returns a valid license.
\<close>

theorem C9_trailing_garbage:
  "validateKeyAtTime hmac_sha256 \<lparr>LicenseValidator.secretKey = ''k''\<rparr>
     (signedToken hmac_sha256 ''k'' (utf8_encode ''1:2x'')) (Some 0)
     = Inr \<lparr>isValid = True, issuedAt = Some 1000, expiresAt = Some 2000,
            hoursRemaining = 1 / 1800\<rparr>"
proof -
  have "0x2E \<notin> set (utf8_encode ''1:2x'')"
    by (simp add: utf8_encode_def utf8_char_def byte_of_char_def)
  then have "tokenPayload hmac_sha256 \<lparr>LicenseValidator.secretKey = ''k''\<rparr>
      (signedToken hmac_sha256 ''k'' (utf8_encode ''1:2x'')) = Inr (utf8_encode ''1:2x'')"
    by (rule tokenPayload_signed) simp
  then show ?thesis
    by (simp add: validate_gates payloadTimes_trailing_garbage temporalGate_def)
qed



end
